theory Spec2Isabelle
  imports Complex_Main
begin

section \<open>EvaSoil dashboard: data model\<close>

text \<open>
  The dashboard (\<^verbatim>\<open>src/app/page.tsx\<close>) keeps React state \<^verbatim>\<open>data\<close>, \<^verbatim>\<open>latest\<close>,
  \<^verbatim>\<open>loading\<close>, \<^verbatim>\<open>timeRange\<close> and \<^verbatim>\<open>stats\<close>; the ingest route
  (\<^verbatim>\<open>src/app/api/sensor-data/route.ts\<close>) builds the row it inserts.

  JavaScript numbers are modelled as \<open>real\<close>: finite values, exact arithmetic. The
  quotient \<^verbatim>\<open>0 / 0 = NaN\<close> of an empty window is written out as an explicit case, and
  the result of \<^verbatim>\<open>parseFloat\<close>, which can be \<^verbatim>\<open>NaN\<close> or infinite, has a type of its
  own.
\<close>

text \<open>
  Modelled from the spec: the type \<^verbatim>\<open>SensorReading\<close> is imported from \<^verbatim>\<open>@/lib/supabase\<close>,
  which is not among the sources. The fields are the ones \<^verbatim>\<open>page.tsx\<close> reads
  (\<^verbatim>\<open>device_id\<close>, \<^verbatim>\<open>moisture\<close>, \<^verbatim>\<open>temperature\<close>, \<^verbatim>\<open>light_lux\<close>, \<^verbatim>\<open>created_at\<close>) and the
  \<^verbatim>\<open>id\<close> of the spec's Reading, here \<open>reading_id\<close> (\<open>id\<close> is HOL's identity function).
  \<^verbatim>\<open>created_at\<close> is an instant (the source holds an ISO string, read through
  \<^verbatim>\<open>new Date\<close>).
\<close>

record SensorReading =
  reading_id :: nat
  device_id :: string
  moisture :: real
  temperature :: real
  light_lux :: real
  created_at :: int

datatype TimeRange = R1h | R6h | R24h | R7d | R30d

record Stats =
  moistureAvg :: real
  moistureTrend :: real
  tempAvg :: real
  tempTrend :: real
  lightAvg :: real
  lightTrend :: real
  totalReadings :: nat
  moistureMin :: real
  moistureMax :: real
  tempMin :: real
  tempMax :: real
  lightMin :: real
  lightMax :: real

section \<open>Array helpers of the source\<close>

text \<open>
  \<^verbatim>\<open>Array.prototype.slice(start, end)\<close>: a negative index counts from the end and is
  clamped at 0, a non-negative one is clamped at the length; the result is empty when
  the start is not before the end.
\<close>

definition slice_index :: "nat \<Rightarrow> int \<Rightarrow> nat" where
  "slice_index n i = (if i < 0 then nat (max (int n + i) 0) else min (nat i) n)"

definition slice :: "int \<Rightarrow> int \<Rightarrow> 'a list \<Rightarrow> 'a list" where
  "slice start stop xs =
     (let k = slice_index (length xs) start;
          e = slice_index (length xs) stop
      in take (e - k) (drop k xs))"

text \<open>\<^verbatim>\<open>slice(start)\<close> with the end omitted runs to the end of the array.\<close>

definition slice_from :: "int \<Rightarrow> 'a list \<Rightarrow> 'a list" where
  "slice_from start xs = drop (slice_index (length xs) start) xs"

text \<open>\<^verbatim>\<open>values.reduce((a, b) => a + b, 0)\<close>: a left fold from 0.\<close>

definition reduce_sum :: "real list \<Rightarrow> real" where
  "reduce_sum xs = foldl (\<lambda>a b. a + b) 0 xs"

text \<open>
  \<^verbatim>\<open>(w.reduce((a, b) => a + b, 0) / w.length || 0)\<close>: for an empty window the quotient
  is \<^verbatim>\<open>0 / 0 = NaN\<close>, which is falsy, so the expression is 0; a quotient equal to 0 is
  falsy too and the expression is again 0.
\<close>

definition window_mean_or_zero :: "real list \<Rightarrow> real" where
  "window_mean_or_zero w =
     (if length w = 0 then 0
      else let q = reduce_sum w / real (length w) in if q = 0 then 0 else q)"

section \<open>calculateStats\<close>

text \<open>
  \<^verbatim>\<open>calculateStats\<close> returns early, without calling \<^verbatim>\<open>setStats\<close>, when there are fewer
  than two readings: that outcome is \<open>None\<close>. Otherwise \<open>Some s\<close> is the object handed to
  \<^verbatim>\<open>setStats\<close>. \<^verbatim>\<open>Math.min(...v)\<close> and \<^verbatim>\<open>Math.max(...v)\<close> are only reached on lists of
  at least two values, where they are the least and greatest element.
\<close>

definition trend_of :: "real list \<Rightarrow> real" where
  "trend_of vals =
     (let recent = slice_from (- 10) vals;
          old = slice (- 20) (- 10) vals
      in window_mean_or_zero recent - window_mean_or_zero old)"

definition calculateStats :: "SensorReading list \<Rightarrow> Stats option" where
  "calculateStats readings =
     (if length readings < 2 then None
      else
        let moistureValues = map moisture readings;
            tempValues = map temperature readings;
            lightValues = map light_lux readings
        in Some \<lparr>
             moistureAvg = reduce_sum moistureValues / real (length moistureValues),
             moistureTrend = trend_of moistureValues,
             tempAvg = reduce_sum tempValues / real (length tempValues),
             tempTrend = trend_of tempValues,
             lightAvg = reduce_sum lightValues / real (length lightValues),
             lightTrend = trend_of lightValues,
             totalReadings = length readings,
             moistureMin = Min (set moistureValues),
             moistureMax = Max (set moistureValues),
             tempMin = Min (set tempValues),
             tempMax = Max (set tempValues),
             lightMin = Min (set lightValues),
             lightMax = Max (set lightValues)
           \<rparr>)"

text \<open>
  A call \<^verbatim>\<open>calculateStats(readings)\<close> as its caller sees it. The function returns
  \<^verbatim>\<open>undefined\<close> on every path and the caller discards that; what the call does is set
  the state \<^verbatim>\<open>stats\<close>, or leave it as it is (\<open>current\<close>) after the bare \<^verbatim>\<open>return;\<close>.
  \<^verbatim>\<open>Math.min(...v)\<close> and \<^verbatim>\<open>Math.max(...v)\<close> pass one argument per value, and an engine
  throws a \<^verbatim>\<open>RangeError\<close> when there are more than it accepts: that bound is a
  constant of the engine, here the parameter \<open>arg_limit\<close>. The throw comes while the
  argument of \<^verbatim>\<open>setStats\<close> is built, so no statistics are set.
\<close>

datatype js_error = RangeError | TypeError

definition calculateStats_call :: "nat \<Rightarrow> SensorReading list \<Rightarrow> Stats \<Rightarrow> js_error + Stats" where
  "calculateStats_call arg_limit readings current =
     (case calculateStats readings of
        None \<Rightarrow> Inr current
      | Some s \<Rightarrow> if arg_limit < length readings then Inl RangeError else Inr s)"

text \<open>
  The trend as the specification words it: the mean of the last \<open>min 10 n\<close> values minus
  the mean of the \<open>min 10 (n - 10)\<close> values immediately before that tail window.
\<close>

definition mean :: "real list \<Rightarrow> real" where
  "mean w = sum_list w / real (length w)"

definition tail_window :: "real list \<Rightarrow> real list" where
  "tail_window vals = drop (length vals - min 10 (length vals)) vals"

definition preceding_window :: "real list \<Rightarrow> real list" where
  "preceding_window vals =
     (let n = length vals; m = min 10 (n - 10)
      in take m (drop (n - 10 - m) vals))"

section \<open>The dashboard state and its handlers\<close>

text \<open>
  The React state of \<^verbatim>\<open>Dashboard\<close>, with three fields for what is outside it:
  \<open>scheduled\<close> is the \<^verbatim>\<open>setTimeout\<close> of the fetch effect that has not fired yet (with
  the \<^verbatim>\<open>timeRange\<close> its \<^verbatim>\<open>fetchData\<close> closure captured), \<open>inflight\<close> the range
  queries that were issued and have not answered yet, oldest first, and
  \<open>screen_loading\<close> is the value of \<^verbatim>\<open>loading\<close> in the render that is on the page. While
  it is true the page is the loading screen (\<^verbatim>\<open>if (loading) return ...\<close>) and has no
  range buttons. A state update made outside a click handler (in the timer callback,
  after the \<^verbatim>\<open>await\<close>, in the realtime handler) reaches the page with the next
  render, which is a later task.
\<close>

record Dashboard =
  data :: "SensorReading list"
  latest :: "SensorReading option"
  loading :: bool
  timeRange :: TimeRange
  stats :: Stats
  scheduled :: "TimeRange option"
  inflight :: "TimeRange list"
  screen_loading :: bool

definition zero_stats :: Stats where
  "zero_stats = \<lparr>moistureAvg = 0, moistureTrend = 0, tempAvg = 0, tempTrend = 0,
     lightAvg = 0, lightTrend = 0, totalReadings = 0, moistureMin = 0, moistureMax = 0,
     tempMin = 0, tempMax = 0, lightMin = 0, lightMax = 0\<rparr>"

text \<open>
  The \<^verbatim>\<open>useState\<close> initial values: the first render is the loading screen. On mount
  the fetch effect schedules its timer.
\<close>

definition initial :: Dashboard where
  "initial = \<lparr>data = [], latest = None, loading = True, timeRange = R6h,
     stats = zero_stats, scheduled = Some R6h, inflight = [], screen_loading = True\<rparr>"

text \<open>A render puts the current state on the page.\<close>

definition render :: "Dashboard \<Rightarrow> Dashboard" where
  "render st = st\<lparr>screen_loading := loading st\<rparr>"

text \<open>
  The realtime \<^verbatim>\<open>INSERT\<close> handler:
  \<^verbatim>\<open>setData((prev) => [...prev, newReading].slice(-1000)); setLatest(newReading);\<close>
\<close>

definition on_insert :: "Dashboard \<Rightarrow> SensorReading \<Rightarrow> Dashboard" where
  "on_insert st newReading =
     st\<lparr>data := slice_from (- 1000) (data st @ [newReading]),
        latest := Some newReading\<rparr>"

text \<open>
  The part of \<^verbatim>\<open>fetchData\<close> after the \<^verbatim>\<open>await\<close>. The query result is \<open>None\<close> when
  \<^verbatim>\<open>error\<close> is set or \<^verbatim>\<open>readings\<close> is null, \<open>Some readings\<close> otherwise.
\<close>

definition set_stats :: "SensorReading list \<Rightarrow> Dashboard \<Rightarrow> Dashboard" where
  "set_stats readings st =
     (case calculateStats readings of None \<Rightarrow> st | Some s \<Rightarrow> st\<lparr>stats := s\<rparr>)"

definition fetch_done :: "Dashboard \<Rightarrow> SensorReading list option \<Rightarrow> Dashboard" where
  "fetch_done st result =
     (let st1 =
        (case result of
           None \<Rightarrow> st
         | Some readings \<Rightarrow>
             (let st2 = st\<lparr>data := readings\<rparr>
              in if length readings > 0
                 then set_stats readings
                        (st2\<lparr>latest := Some (readings ! (length readings - 1))\<rparr>)
                 else st2))
      in st1\<lparr>loading := False\<rparr>)"

text \<open>
  The only call of \<^verbatim>\<open>setTimeRange\<close> is the click handler of the range buttons, so a
  click can only come while the page has them: not while the loading screen is on the
  page. React drops an update to the same value. A new value is rendered at the end of
  the click (with every update pending by then) and recreates \<^verbatim>\<open>fetchData\<close>
  (\<^verbatim>\<open>useCallback\<close> on \<^verbatim>\<open>[timeRange]\<close>), so the fetch effect is cleaned up
  (\<^verbatim>\<open>isMounted = false; clearTimeout(id)\<close>: a timer that has not fired is cancelled) and
  run again (a new timer for the new closure). Nothing in the cleanup reaches a query
  that is already in flight.
\<close>

definition setTimeRange :: "Dashboard \<Rightarrow> TimeRange \<Rightarrow> Dashboard" where
  "setTimeRange st r =
     (if screen_loading st then st
      else if r = timeRange st then st
      else st\<lparr>timeRange := r, scheduled := Some r, screen_loading := loading st\<rparr>)"

text \<open>The timer fires: \<^verbatim>\<open>fetchData()\<close> sets \<^verbatim>\<open>loading\<close> and issues the range query.\<close>

definition timer_fires :: "Dashboard \<Rightarrow> Dashboard" where
  "timer_fires st =
     (case scheduled st of
        None \<Rightarrow> st
      | Some r \<Rightarrow>
          st\<lparr>scheduled := None, loading := True, inflight := inflight st @ [r]\<rparr>)"

text \<open>The query issued for the range \<open>r\<close> answers; only an issued query can answer.\<close>

definition query_done :: "Dashboard \<Rightarrow> TimeRange \<Rightarrow> SensorReading list option \<Rightarrow> Dashboard" where
  "query_done st r result =
     (if r \<in> set (inflight st)
      then fetch_done (st\<lparr>inflight := remove1 r (inflight st)\<rparr>) result
      else st)"

datatype event =
    SetTimeRange TimeRange
  | TimerFires
  | QueryDone TimeRange "SensorReading list option"
  | Insert SensorReading
  | Render

fun step :: "Dashboard \<Rightarrow> event \<Rightarrow> Dashboard" where
  "step st (SetTimeRange r) = setTimeRange st r"
| "step st TimerFires = timer_fires st"
| "step st (QueryDone r result) = query_done st r result"
| "step st (Insert newReading) = on_insert st newReading"
| "step st Render = render st"

definition run :: "Dashboard \<Rightarrow> event list \<Rightarrow> Dashboard" where
  "run st evs = foldl step st evs"

section \<open>Alerts and settings\<close>

text \<open>
  The state of \<^verbatim>\<open>SettingsModal\<close>, which \<^verbatim>\<open>saveSettings\<close> writes to local storage under
  \<^verbatim>\<open>evasoil_settings\<close>, and its \<^verbatim>\<open>useState\<close> defaults.
\<close>

record Settings =
  moistureThreshold :: real
  tempThresholdLow :: real
  tempThresholdHigh :: real
  lightThreshold :: real

definition default_settings :: Settings where
  "default_settings = \<lparr>moistureThreshold = 30, tempThresholdLow = 15,
     tempThresholdHigh = 28, lightThreshold = 100\<rparr>"

text \<open>
  On mount the dashboard reads \<^verbatim>\<open>evasoil_settings\<close> and, when present, parses and logs
  it; no state is set from it.
\<close>

definition load_settings :: "Dashboard \<Rightarrow> Settings option \<Rightarrow> Dashboard" where
  "load_settings st stored = (case stored of None \<Rightarrow> st | Some parsed \<Rightarrow> st)"

text \<open>
  The two alert banners of the render function: nothing but the loading screen is
  rendered while \<^verbatim>\<open>loading\<close>, and the banners sit under \<^verbatim>\<open>{latest && ...}\<close>.
\<close>

datatype alert = LowMoistureAlert | LowLightAlert

definition lowMoisture :: "SensorReading \<Rightarrow> bool" where
  "lowMoisture l = (moisture l < 30)"

definition lowLight :: "SensorReading \<Rightarrow> bool" where
  "lowLight l = (light_lux l < 100)"

definition alerts :: "Dashboard \<Rightarrow> alert list" where
  "alerts st =
     (if loading st then []
      else case latest st of
             None \<Rightarrow> []
           | Some l \<Rightarrow>
               (if lowMoisture l then [LowMoistureAlert] else []) @
               (if lowLight l then [LowLightAlert] else []))"

section \<open>The ingest route\<close>

text \<open>
  The request body is a parsed JSON object: a map from keys to JSON values; reading a
  missing key gives \<^verbatim>\<open>undefined\<close>. A body that is a number, a string, a boolean or an
  array has none of the keys read here; for the body \<^verbatim>\<open>null\<close> the handler throws before
  it builds the record, and nothing is inserted. A string value is its list of UTF-16
  code units.
\<close>

datatype json =
    JUndefined
  | JNull
  | JBool bool
  | JNum real
  | JStr "nat list"
  | JArr "json list"
  | JObj "(string \<times> json) list"


definition get_field :: "(string \<rightharpoonup> json) \<Rightarrow> string \<Rightarrow> json" where
  "get_field body k = (case body k of None \<Rightarrow> JUndefined | Some v \<Rightarrow> v)"
















section \<open>Properties stated by the specification\<close>

text \<open>
  The trend in terms of the two windows, with the mean of an empty preceding window
  taken as 0.
\<close>

definition trend_by_windows :: "real list \<Rightarrow> real" where
  "trend_by_windows vals =
     mean (tail_window vals) -
     (if length vals \<le> 10 then 0 else mean (preceding_window vals))"

text \<open>The two parts of the buffer invariant of the specification.\<close>

definition buffer_sorted :: "SensorReading list \<Rightarrow> bool" where
  "buffer_sorted buf = sorted (map created_at buf)"

definition ids_distinct :: "SensorReading list \<Rightarrow> bool" where
  "ids_distinct buf = distinct (map reading_id buf)"

text \<open>A sequence of live pushes, in order of arrival.\<close>

definition pushes :: "Dashboard \<Rightarrow> SensorReading list \<Rightarrow> Dashboard" where
  "pushes st rs = run st (map Insert rs)"

text \<open>The last \<open>k\<close> entries of a list (all of it when it is shorter).\<close>

definition keep_last :: "nat \<Rightarrow> 'a list \<Rightarrow> 'a list" where
  "keep_last k xs = drop (length xs - k) xs"

text \<open>
  A click races with the render when \<^verbatim>\<open>loading\<close> has been set and the page still has
  the range buttons. A sequence of events has no race when no click in it does.
\<close>

definition click_races :: "Dashboard \<Rightarrow> bool" where
  "click_races st = (loading st \<and> \<not> screen_loading st)"

fun no_race :: "Dashboard \<Rightarrow> event list \<Rightarrow> bool" where
  "no_race st [] = True"
| "no_race st (SetTimeRange r # evs) =
     (\<not> click_races st \<and> no_race (step st (SetTimeRange r)) evs)"
| "no_race st (ev # evs) = no_race (step st ev) evs"

text \<open>
  At most one query is in flight, it is for the selected range, and so is a timer
  that is scheduled.
\<close>

definition single_flight :: "Dashboard \<Rightarrow> bool" where
  "single_flight st =
     ((inflight st = [] \<or>
       (inflight st = [timeRange st] \<and> loading st \<and> scheduled st = None)) \<and>
      (scheduled st = None \<or> scheduled st = Some (timeRange st)))"

section \<open>Concrete inputs\<close>

definition reading_at :: "nat \<Rightarrow> real \<Rightarrow> SensorReading" where
  "reading_at t m = \<lparr>reading_id = t, device_id = ''ESP32_PlantGuard_01'', moisture = m,
     temperature = 0, light_lux = 0, created_at = int t\<rparr>"

text \<open>Scenario A: moisture 50 at time 0, then 30 at time 1.\<close>

definition scenario_A :: "SensorReading list" where
  "scenario_A = [reading_at 0 50, reading_at 1 30]"

text \<open>Scenario B: twenty readings with moisture 1 to 20 in order.\<close>

definition scenario_B :: "SensorReading list" where
  "scenario_B = map (\<lambda>i. reading_at i (real i)) [1..<21]"

text \<open>A buffer at capacity: a thousand readings at times 1 to 1000.\<close>

definition full_buffer :: "SensorReading list" where
  "full_buffer = map (\<lambda>i. reading_at i 50) [1..<1001]"

definition full_state :: Dashboard where
  "full_state = initial\<lparr>data := full_buffer, latest := Some (reading_at 1000 50),
     loading := False, scheduled := None, screen_loading := False\<rparr>"

text \<open>The first fetch has answered with scenario A, and the dashboard is on the page.\<close>

definition first_fetch :: "event list" where
  "first_fetch = [TimerFires, Render, QueryDone R6h (Some scenario_A), Render]"

definition ready_state :: Dashboard where
  "ready_state = run initial first_fetch"

text \<open>
  Scenario E, from the dashboard on the page: the range is switched to 1h and back to
  6h; the 6h timer fires, and the click on 24h comes before the page is rendered
  again, while the 6h query is in flight; the 24h query answers first, the 6h query
  afterwards.
\<close>

definition answer_1h :: "SensorReading list" where
  "answer_1h = [reading_at 9 10]"

definition answer_6h :: "SensorReading list" where
  "answer_6h = [reading_at 7 20]"

definition answer_24h :: "SensorReading list" where
  "answer_24h = [reading_at 3 60, reading_at 7 20]"

definition back_to_6h :: "event list" where
  "back_to_6h = [SetTimeRange R1h, TimerFires, Render, QueryDone R1h (Some answer_1h),
     Render, SetTimeRange R6h, TimerFires]"

definition scenario_E :: "event list" where
  "scenario_E = back_to_6h @ [SetTimeRange R24h, TimerFires, Render,
     QueryDone R24h (Some answer_24h), Render, QueryDone R6h (Some answer_6h)]"

text \<open>
  Stored settings with a moisture threshold of 50, and a latest reading with moisture
  40, temperature 40 and light 500.
\<close>

definition settings_50 :: Settings where
  "settings_50 = default_settings\<lparr>moistureThreshold := 50\<rparr>"

definition reading_40 :: SensorReading where
  "reading_40 = (reading_at 1 40)\<lparr>temperature := 40, light_lux := 500\<rparr>"

definition state_40 :: Dashboard where
  "state_40 = initial\<lparr>data := [reading_40], latest := Some reading_40,
     loading := False, scheduled := None, screen_loading := False\<rparr>"




section \<open>Array helpers\<close>

lemma slice_index_neg: "0 < k \<Longrightarrow> slice_index n (- int k) = n - k"
proof -
  assume "0 < k"
  then have "slice_index n (- int k) = nat (max (int n - int k) 0)"
    by (simp add: slice_index_def)
  also have "\<dots> = n - k" by (simp add: max_def) arith
  finally show ?thesis .
qed

lemma slice_index_minus_10: "slice_index n (- 10) = n - 10"
  using slice_index_neg [where k = 10 and n = n] by simp

lemma slice_index_minus_20: "slice_index n (- 20) = n - 20"
  using slice_index_neg [where k = 20 and n = n] by simp

lemma slice_index_minus_1000: "slice_index n (- 1000) = n - 1000"
  using slice_index_neg [where k = 1000 and n = n] by simp

lemma slice_from_keep_last: "slice_from (- 1000) xs = keep_last 1000 xs"
  by (simp add: slice_from_def keep_last_def slice_index_minus_1000)

lemma foldl_add_sum_list: "foldl (\<lambda>a b. a + b) (a::real) xs = a + sum_list xs"
  by (induction xs arbitrary: a) simp_all

lemma reduce_sum_sum_list: "reduce_sum xs = sum_list xs"
  by (simp add: reduce_sum_def foldl_add_sum_list)

lemma window_mean_or_zero_mean:
  "window_mean_or_zero w = (if w = [] then 0 else mean w)"
  by (simp add: window_mean_or_zero_def mean_def reduce_sum_sum_list Let_def)

section \<open>The trend windows\<close>

lemma slice_from_tail_window: "slice_from (- 10) vals = tail_window vals"
proof -
  have "length vals - min 10 (length vals) = length vals - 10" by arith
  then show ?thesis
    by (simp add: slice_from_def slice_index_minus_10 tail_window_def)
qed

lemma slice_preceding_window: "slice (- 20) (- 10) vals = preceding_window vals"
proof -
  let ?n = "length vals"
  have a: "?n - 10 - (?n - 20) = min 10 (?n - 10)" by arith
  have b: "?n - 10 - min 10 (?n - 10) = ?n - 20" by arith
  have "slice (- 20) (- 10) vals = take (?n - 10 - (?n - 20)) (drop (?n - 20) vals)"
    by (simp only: slice_def slice_index_minus_10 slice_index_minus_20 Let_def)
  also have "\<dots> = take (min 10 (?n - 10)) (drop (?n - 10 - min 10 (?n - 10)) vals)"
    by (simp only: a b)
  also have "\<dots> = preceding_window vals"
    by (simp only: preceding_window_def Let_def)
  finally show ?thesis .
qed

lemma length_tail_window: "length (tail_window vals) = min 10 (length vals)"
  by (simp add: tail_window_def)

lemma length_preceding_window:
  "length (preceding_window vals) = min 10 (length vals - 10)"
  by (simp add: preceding_window_def Let_def)

text \<open>The preceding window ends where the tail window starts.\<close>

lemma windows_adjacent:
  "preceding_window vals @ tail_window vals =
     drop (length vals - (min 10 (length vals - 10) + min 10 (length vals))) vals"
proof (cases "length vals \<le> 10")
  case True
  then show ?thesis by (simp add: preceding_window_def tail_window_def Let_def)
next
  case False
  let ?n = "length vals"
  let ?m = "min 10 (?n - 10)"
  from False have t: "tail_window vals = drop (?n - 10) vals"
    by (simp add: tail_window_def)
  have p: "preceding_window vals = take ?m (drop (?n - 10 - ?m) vals)"
    by (simp add: preceding_window_def Let_def)
  from False have e: "?n - 10 = (?n - 10 - ?m) + ?m" by arith
  have "take ?m (drop (?n - 10 - ?m) vals) @ drop ?m (drop (?n - 10 - ?m) vals)
      = drop (?n - 10 - ?m) vals"
    by (rule append_take_drop_id)
  moreover have "drop ?m (drop (?n - 10 - ?m) vals) = drop (?n - 10) vals"
    by (subst drop_drop, subst add.commute, subst e [symmetric], rule refl)
  moreover from False have "?n - (?m + min 10 ?n) = ?n - 10 - ?m" by arith
  ultimately show ?thesis using t p by simp
qed

lemma trend_of_windows: "vals \<noteq> [] \<Longrightarrow> trend_of vals = trend_by_windows vals"
proof -
  assume ne: "vals \<noteq> []"
  then have t: "tail_window vals \<noteq> []"
    using length_tail_window [of vals] by (cases vals) auto
  have p: "preceding_window vals = [] \<longleftrightarrow> length vals \<le> 10"
  proof -
    have "length (preceding_window vals) = 0 \<longleftrightarrow> length vals \<le> 10"
      unfolding length_preceding_window by arith
    then show ?thesis by simp
  qed
  show ?thesis
    by (simp add: trend_of_def trend_by_windows_def Let_def slice_from_tail_window
        slice_preceding_window window_mean_or_zero_mean t p)
qed

lemma calculateStats_Some:
  "2 \<le> length readings \<Longrightarrow> \<exists>s. calculateStats readings = Some s \<and>
     moistureTrend s = trend_of (map moisture readings) \<and>
     tempTrend s = trend_of (map temperature readings) \<and>
     lightTrend s = trend_of (map light_lux readings) \<and>
     totalReadings s = length readings"
  by (simp add: calculateStats_def Let_def)

text \<open>
  C1 (as amended). For a series of at least two readings and each metric, the trend is
  the mean of the last \<open>min 10 n\<close> values minus the mean of the \<open>min 10 (n - 10)\<close>
  values immediately before that tail window; when the preceding window is empty
  (\<open>n \<le> 10\<close>) its mean is taken as 0, so the trend is the mean of the tail window.
\<close>

theorem calculateStats_trend:
  assumes "2 \<le> length readings"
  shows "\<exists>s. calculateStats readings = Some s \<and>
     moistureTrend s = trend_by_windows (map moisture readings) \<and>
     tempTrend s = trend_by_windows (map temperature readings) \<and>
     lightTrend s = trend_by_windows (map light_lux readings)"
proof -
  from assms have ne: "readings \<noteq> []" by auto
  from calculateStats_Some [OF assms] obtain s where
    s: "calculateStats readings = Some s"
      "moistureTrend s = trend_of (map moisture readings)"
      "tempTrend s = trend_of (map temperature readings)"
      "lightTrend s = trend_of (map light_lux readings)"
    by blast
  from ne have "moistureTrend s = trend_by_windows (map moisture readings)"
    and "tempTrend s = trend_by_windows (map temperature readings)"
    and "lightTrend s = trend_by_windows (map light_lux readings)"
    by (simp_all add: s trend_of_windows)
  with s(1) show ?thesis by blast
qed

text \<open>The twenty readings of scenario B have a moisture trend of 10.\<close>

theorem calculateStats_trend_witness:
  "2 \<le> length scenario_B \<and>
   (\<exists>s. calculateStats scenario_B = Some s \<and> moistureTrend s = 10)"
proof -
  have h: "2 \<le> length scenario_B" by (simp add: scenario_B_def)
  have v: "trend_by_windows (map moisture scenario_B) = 10" by code_simp
  from calculateStats_trend [OF h] v h show ?thesis by auto
qed

text \<open>
  C1 as stated fails on scenario A: with two readings the preceding window is empty
  and the moisture trend is 40, the mean of the two values, not 0.
\<close>

theorem scenario_A_trend_counterexample:
  "length scenario_A = 2 \<and>
   map_option moistureTrend (calculateStats scenario_A) = Some 40 \<and>
   map_option moistureTrend (calculateStats scenario_A) \<noteq> Some 0"
  by (simp add: calculateStats_def scenario_A_def reading_at_def trend_of_def
      slice_from_def slice_def slice_index_def window_mean_or_zero_def reduce_sum_def
      Let_def)

text \<open>
  C4 (as amended). With fewer than two readings a call of \<^verbatim>\<open>calculateStats\<close> returns
  early: it raises no error and sets no statistics, so the statistics stay as they
  were before the call, and nothing marks them as insufficient. With two or more
  readings it sets statistics computed from the series, unless the series is longer
  than the engine accepts arguments in \<^verbatim>\<open>Math.min(...v)\<close>: then it raises a
  \<^verbatim>\<open>RangeError\<close>.
\<close>

theorem calculateStats_call_outcome:
  "(length readings < 2 \<longrightarrow>
      calculateStats_call arg_limit readings current = Inr current) \<and>
   (2 \<le> length readings \<and> length readings \<le> arg_limit \<longrightarrow>
      (\<exists>s. calculateStats readings = Some s \<and> totalReadings s = length readings \<and>
           calculateStats_call arg_limit readings current = Inr s)) \<and>
   (2 \<le> length readings \<and> arg_limit < length readings \<longrightarrow>
      calculateStats_call arg_limit readings current = Inl RangeError)"
proof -
  have a: "calculateStats_call arg_limit readings current = Inr current"
    if "length readings < 2"
    using that by (simp add: calculateStats_call_def calculateStats_def)
  have b: "\<exists>s. calculateStats readings = Some s \<and> totalReadings s = length readings \<and>
      calculateStats_call arg_limit readings current = Inr s"
    if "2 \<le> length readings" and "length readings \<le> arg_limit"
  proof -
    from calculateStats_Some [OF that(1)] obtain s where
      "calculateStats readings = Some s" and "totalReadings s = length readings"
      by blast
    with that(2) show ?thesis by (simp add: calculateStats_call_def)
  qed
  have c: "calculateStats_call arg_limit readings current = Inl RangeError"
    if "2 \<le> length readings" and "arg_limit < length readings"
  proof -
    from calculateStats_Some [OF that(1)] obtain s where
      "calculateStats readings = Some s"
      by blast
    with that(2) show ?thesis by (simp add: calculateStats_call_def)
  qed
  from a b c show ?thesis by blast
qed

text \<open>
  With a limit of three arguments: no readings leave the statistics as they were,
  scenario A sets statistics of two readings, and scenario B raises.
\<close>

theorem calculateStats_call_outcome_witness:
  "calculateStats_call 3 [] zero_stats = Inr zero_stats \<and>
   (\<exists>s. calculateStats_call 3 scenario_A zero_stats = Inr s \<and> totalReadings s = 2) \<and>
   calculateStats_call 3 scenario_B zero_stats = Inl RangeError"
proof -
  have la: "length scenario_A = 2" by (simp add: scenario_A_def)
  have lb: "length scenario_B = 20" by (simp add: scenario_B_def)
  from calculateStats_call_outcome [of "[]" 3 zero_stats]
  have a: "calculateStats_call 3 [] zero_stats = Inr zero_stats" by simp
  from calculateStats_call_outcome [of scenario_A 3 zero_stats] la
  have b: "\<exists>s. calculateStats_call 3 scenario_A zero_stats = Inr s \<and> totalReadings s = 2"
    by auto
  from calculateStats_call_outcome [of scenario_B 3 zero_stats] lb
  have c: "calculateStats_call 3 scenario_B zero_stats = Inl RangeError" by simp
  from a b c show ?thesis by (intro conjI)
qed

text \<open>
  C4 as stated fails: called with one reading while the statistics of scenario A are
  displayed, \<^verbatim>\<open>calculateStats\<close> gives no insufficient-data result; the outcome is the
  statistics of scenario A, which count two readings.
\<close>

theorem stale_stats_counterexample:
  "length [reading_at 7 20] = 1 \<and>
   map_option totalReadings (calculateStats scenario_A) = Some 2 \<and>
   map_sum id totalReadings
     (calculateStats_call 65536 [reading_at 7 20]
        (case calculateStats scenario_A of None \<Rightarrow> zero_stats | Some s \<Rightarrow> s)) = Inr 2"
proof -
  have "length scenario_A = 2" by (simp add: scenario_A_def)
  with calculateStats_Some [of scenario_A] obtain s where
    s: "calculateStats scenario_A = Some s" "totalReadings s = 2"
    by auto
  have "calculateStats_call 65536 [reading_at 7 20] s = Inr s"
    by (simp add: calculateStats_call_def calculateStats_def)
  with s show ?thesis by simp
qed

section \<open>The first fetch\<close>

lemma fetch_done_keeps_all: "data (fetch_done st (Some readings)) = readings"
  by (simp add: fetch_done_def set_stats_def Let_def split: option.splits)

lemma fetch_done_fields:
  "timeRange (fetch_done st result) = timeRange st"
  "scheduled (fetch_done st result) = scheduled st"
  "inflight (fetch_done st result) = inflight st"
  "screen_loading (fetch_done st result) = screen_loading st"
  "loading (fetch_done st result) = False"
  by (simp_all add: fetch_done_def set_stats_def Let_def split: option.splits)





lemma ready_state_eq:
  "ready_state =
     (fetch_done (initial\<lparr>scheduled := None, inflight := []\<rparr>) (Some scenario_A))
       \<lparr>screen_loading := False\<rparr>"
  by (simp add: ready_state_def first_fetch_def run_def timer_fires_def render_def
      query_done_def initial_def fetch_done_fields)

lemma data_ready_state: "data ready_state = scenario_A"
  by (simp add: ready_state_eq fetch_done_keeps_all)

lemma ready_state_fields:
  "timeRange ready_state = R6h"
  "scheduled ready_state = None"
  "inflight ready_state = []"
  "screen_loading ready_state = False"
  "loading ready_state = False"
  by (simp_all add: ready_state_eq fetch_done_fields initial_def)



section \<open>Live pushes\<close>

lemma data_on_insert: "data (on_insert st r) = keep_last 1000 (data st @ [r])"
  by (simp add: on_insert_def slice_from_keep_last)

lemma latest_on_insert: "latest (on_insert st r) = Some r"
  by (simp add: on_insert_def)

lemma length_keep_last: "length (keep_last k xs) = min k (length xs)"
  by (simp add: keep_last_def)

lemma keep_last_short: "length xs \<le> k \<Longrightarrow> keep_last k xs = xs"
  by (simp add: keep_last_def)

lemma keep_last_snoc:
  assumes "0 < k"
  shows "keep_last k (keep_last k xs @ [r]) = keep_last k (xs @ [r])"
proof (cases "length xs \<le> k")
  case True
  then show ?thesis by (simp add: keep_last_short)
next
  case False
  then have "length xs - k + (Suc k - k) = Suc (length xs) - k" by arith
  with False assms show ?thesis by (simp add: keep_last_def)
qed

lemma pushes_Nil: "pushes st [] = st"
  by (simp add: pushes_def run_def)

lemma pushes_snoc: "pushes st (rs @ [r]) = on_insert (pushes st rs) r"
  by (simp add: pushes_def run_def)

text \<open>A non-empty sequence of pushes leaves the last 1000 of everything appended.\<close>

lemma data_pushes:
  "rs \<noteq> [] \<Longrightarrow> data (pushes st rs) = keep_last 1000 (data st @ rs)"
proof (induction rs rule: rev_induct)
  case Nil
  then show ?case by simp
next
  case (snoc r rs)
  show ?case
  proof (cases "rs = []")
    case True
    then show ?thesis by (simp add: pushes_def run_def data_on_insert)
  next
    case False
    with snoc.IH have "data (pushes st rs) = keep_last 1000 (data st @ rs)" by simp
    then have "data (pushes st (rs @ [r])) =
        keep_last 1000 (keep_last 1000 (data st @ rs) @ [r])"
      by (simp add: pushes_snoc data_on_insert)
    also have "\<dots> = keep_last 1000 ((data st @ rs) @ [r])"
      by (rule keep_last_snoc) simp
    finally show ?thesis by simp
  qed
qed

lemma buffer_sorted_keep_last: "buffer_sorted xs \<Longrightarrow> buffer_sorted (keep_last k xs)"
  by (simp add: buffer_sorted_def keep_last_def drop_map [symmetric] sorted_wrt_drop)

lemma ids_distinct_keep_last: "ids_distinct xs \<Longrightarrow> ids_distinct (keep_last k xs)"
  by (simp add: ids_distinct_def keep_last_def drop_map [symmetric] distinct_drop)

lemma sorted_take_le_drop:
  fixes f :: "'a \<Rightarrow> int"
  assumes "sorted (map f xs)"
  shows "\<forall>x \<in> set (take k xs). \<forall>y \<in> set (drop k xs). f x \<le> f y"
proof -
  have "map f xs = map f (take k xs) @ map f (drop k xs)"
    by (simp only: map_append [symmetric] append_take_drop_id)
  with assms have "sorted (map f (take k xs) @ map f (drop k xs))" by simp
  then show ?thesis by (simp add: sorted_append)
qed

text \<open>
  C2 (as amended). A live push appends the reading at the tail and keeps the last
  1000 entries; it neither looks for the id nor for the sorted position. So for every
  sequence of live pushes in which no reading is older than a reading before it (in
  the buffer or in the sequence) and no id occurs twice, a buffer that is sorted
  ascending by \<open>created_at\<close> with distinct ids stays so.
\<close>

theorem pushes_keep_invariant:
  assumes "buffer_sorted (data st @ rs)" and "ids_distinct (data st @ rs)"
  shows "buffer_sorted (data (pushes st rs)) \<and> ids_distinct (data (pushes st rs)) \<and>
     data (on_insert st r) = keep_last 1000 (data st @ [r]) \<and>
     data (pushes st rs) = (if rs = [] then data st else keep_last 1000 (data st @ rs))"
proof (cases "rs = []")
  case True
  with assms show ?thesis by (simp add: pushes_Nil data_on_insert)
next
  case False
  then have "data (pushes st rs) = keep_last 1000 (data st @ rs)" by (rule data_pushes)
  with assms False show ?thesis
    by (simp add: buffer_sorted_keep_last ids_distinct_keep_last data_on_insert)
qed

theorem pushes_keep_invariant_witness:
  "buffer_sorted (data ready_state @ [reading_at 2 45, reading_at 3 45]) \<and>
   ids_distinct (data ready_state @ [reading_at 2 45, reading_at 3 45]) \<and>
   buffer_sorted (data (pushes ready_state [reading_at 2 45, reading_at 3 45])) \<and>
   ids_distinct (data (pushes ready_state [reading_at 2 45, reading_at 3 45]))"
proof -
  note d = data_ready_state
  have s: "buffer_sorted (data ready_state @ [reading_at 2 45, reading_at 3 45])"
    by (simp add: d scenario_A_def buffer_sorted_def reading_at_def)
  have i: "ids_distinct (data ready_state @ [reading_at 2 45, reading_at 3 45])"
    by (simp add: d scenario_A_def ids_distinct_def reading_at_def)
  from pushes_keep_invariant [OF s i] s i show ?thesis by blast
qed

text \<open>
  C2 as stated fails: pushing a reading whose id is present appends it again, and a
  reading older than the tail is appended after it.
\<close>

theorem on_insert_invariant_counterexample:
  "buffer_sorted (data ready_state) \<and> ids_distinct (data ready_state) \<and>
   data (on_insert ready_state (reading_at 1 30)) = scenario_A @ [reading_at 1 30] \<and>
   \<not> ids_distinct (data (on_insert ready_state (reading_at 1 30))) \<and>
   data (on_insert ready_state (reading_at 0 50)) = scenario_A @ [reading_at 0 50] \<and>
   \<not> buffer_sorted (data (on_insert ready_state (reading_at 0 50)))"
proof -
  note d = data_ready_state
  show ?thesis
    by (simp add: d data_on_insert keep_last_def scenario_A_def buffer_sorted_def
        ids_distinct_def reading_at_def)
qed

text \<open>
  C5 (as amended). After every non-empty sequence of live pushes the buffer holds the
  last 1000 entries, in order of arrival, of the previous buffer followed by the pushed
  readings: its length is the smaller of 1000 and the number of those entries, so it
  stays at exactly 1000 once reached. When those entries are ascending by
  \<open>created_at\<close>, no evicted entry is more recent than a retained one.
\<close>

theorem pushes_capacity:
  assumes "rs \<noteq> []"
  shows "length (data (pushes st rs)) = min 1000 (length (data st) + length rs) \<and>
     data (pushes st rs) = drop (length (data st) + length rs - 1000) (data st @ rs) \<and>
     (buffer_sorted (data st @ rs) \<longrightarrow>
        (\<forall>x \<in> set (take (length (data st) + length rs - 1000) (data st @ rs)).
         \<forall>y \<in> set (data (pushes st rs)). created_at x \<le> created_at y))"
proof -
  let ?all = "data st @ rs"
  let ?k = "length (data st) + length rs - 1000"
  from assms have d: "data (pushes st rs) = drop ?k ?all"
    by (simp add: data_pushes keep_last_def)
  have l: "length (data (pushes st rs)) = min 1000 (length (data st) + length rs)"
    unfolding d by simp
  have o: "\<forall>x \<in> set (take ?k ?all). \<forall>y \<in> set (drop ?k ?all). created_at x \<le> created_at y"
    if "buffer_sorted ?all"
    using that unfolding buffer_sorted_def by (rule sorted_take_le_drop)
  from d l o show ?thesis by simp
qed

theorem pushes_capacity_witness:
  "length (data (pushes full_state [reading_at 1001 50, reading_at 1002 50])) = 1000 \<and>
   data (pushes full_state [reading_at 1001 50, reading_at 1002 50]) =
     drop 2 (full_buffer @ [reading_at 1001 50, reading_at 1002 50])"
proof -
  have "[reading_at 1001 50, reading_at 1002 50] \<noteq> []" by simp
  moreover have "length (data full_state) = 1000" "data full_state = full_buffer"
    by (simp_all add: full_state_def full_buffer_def)
  ultimately show ?thesis
    using pushes_capacity [of "[reading_at 1001 50, reading_at 1002 50]" full_state]
    by simp
qed

text \<open>
  C5 as stated fails: a full buffer with times 1 to 1000 that is pushed a reading of
  time 0 evicts the reading of time 1 and retains the older one.
\<close>

theorem on_insert_recency_counterexample:
  "length (data full_state) = 1000 \<and>
   reading_at 1 50 \<in> set (data full_state) \<and>
   reading_at 1 50 \<notin> set (data (on_insert full_state (reading_at 0 50))) \<and>
   reading_at 0 50 \<in> set (data (on_insert full_state (reading_at 0 50))) \<and>
   created_at (reading_at 0 50) < created_at (reading_at 1 50)"
proof -
  have inj: "reading_at a 50 = reading_at b 50 \<longleftrightarrow> a = b" for a b
    by (auto simp add: reading_at_def)
  have "drop 1 (map (\<lambda>i. reading_at i 50) [1..<1001]) =
      map (\<lambda>i. reading_at i 50) [2..<1001]"
    by (simp only: drop_map drop_upt one_add_one)
  then have d: "data (on_insert full_state (reading_at 0 50)) =
      map (\<lambda>i. reading_at i 50) [2..<1001] @ [reading_at 0 50]"
    by (simp add: data_on_insert keep_last_def full_state_def full_buffer_def
        del: upt_rec_numeral)
  have a: "length (data full_state) = 1000"
    by (simp add: full_state_def full_buffer_def)
  have b: "reading_at 1 50 \<in> set (data full_state)"
    by (simp add: full_state_def full_buffer_def del: upt_rec_numeral)
  have c: "reading_at 1 50 \<notin> set (data (on_insert full_state (reading_at 0 50)))"
    unfolding d by (auto simp add: inj simp del: upt_rec_numeral)
  have e: "reading_at 0 50 \<in> set (data (on_insert full_state (reading_at 0 50)))"
    unfolding d by (simp del: upt_rec_numeral)
  have f: "created_at (reading_at 0 50) < created_at (reading_at 1 50)"
    by (simp add: reading_at_def)
  from a b c e f show ?thesis by simp
qed

text \<open>
  The fetch does not truncate: a query result longer than 1000 is stored whole.
\<close>

lemma fetch_done_over_capacity:
  "length (data (fetch_done initial (Some (replicate 1001 (reading_at 1 50))))) = 1001"
  by (simp add: fetch_done_keeps_all)

text \<open>
  C6 (as amended). Merging the same reading twice appends it twice: the buffer is
  then the last 1000 of the previous buffer followed by two copies, one entry longer
  than after a single merge whenever that was below capacity. Only \<open>latest\<close> is the
  same after one merge and after two.
\<close>

theorem on_insert_twice:
  "latest (on_insert (on_insert st r) r) = latest (on_insert st r) \<and>
   data (on_insert (on_insert st r) r) = keep_last 1000 (data st @ [r, r]) \<and>
   (length (data st) < 999 \<longrightarrow>
      data (on_insert (on_insert st r) r) = data (on_insert st r) @ [r])"
proof -
  have "keep_last 1000 (keep_last 1000 (data st @ [r]) @ [r]) =
      keep_last 1000 ((data st @ [r]) @ [r])"
    by (rule keep_last_snoc) simp
  then have a: "data (on_insert (on_insert st r) r) = keep_last 1000 (data st @ [r, r])"
    by (simp add: data_on_insert)
  have b: "data (on_insert (on_insert st r) r) = data (on_insert st r) @ [r]"
    if "length (data st) < 999"
    using that by (simp add: data_on_insert keep_last_short)
  from a b show ?thesis by (simp add: latest_on_insert)
qed

theorem on_insert_twice_witness:
  "latest (on_insert (on_insert initial (reading_at 1 50)) (reading_at 1 50)) =
     Some (reading_at 1 50) \<and>
   data (on_insert (on_insert initial (reading_at 1 50)) (reading_at 1 50)) =
     [reading_at 1 50, reading_at 1 50]"
proof -
  have "data initial = []" by (simp add: initial_def)
  with on_insert_twice [of initial "reading_at 1 50"] show ?thesis
    by (simp add: latest_on_insert keep_last_def)
qed

text \<open>C6 as stated fails: the second merge of a reading changes the buffer.\<close>

theorem on_insert_idempotent_counterexample:
  "data (on_insert initial (reading_at 1 50)) = [reading_at 1 50] \<and>
   data (on_insert (on_insert initial (reading_at 1 50)) (reading_at 1 50)) =
     [reading_at 1 50, reading_at 1 50] \<and>
   on_insert (on_insert initial (reading_at 1 50)) (reading_at 1 50) \<noteq>
     on_insert initial (reading_at 1 50)"
proof -
  have a: "data (on_insert initial (reading_at 1 50)) = [reading_at 1 50]"
    by (simp add: data_on_insert keep_last_def initial_def)
  have b: "data (on_insert (on_insert initial (reading_at 1 50)) (reading_at 1 50)) =
      [reading_at 1 50, reading_at 1 50]"
    by (simp add: data_on_insert keep_last_def initial_def)
  from a b have "data (on_insert (on_insert initial (reading_at 1 50)) (reading_at 1 50)) \<noteq>
      data (on_insert initial (reading_at 1 50))"
    by simp
  then have "on_insert (on_insert initial (reading_at 1 50)) (reading_at 1 50) \<noteq>
      on_insert initial (reading_at 1 50)"
    by auto
  with a b show ?thesis by simp
qed

text \<open>
  C10. After every live push \<open>latest\<close> is the pushed reading, whatever the previous
  \<open>latest\<close> and whatever the \<open>created_at\<close> of the two.
\<close>

theorem on_insert_latest: "latest (on_insert st newReading) = Some newReading"
  by (simp add: on_insert_def)

text \<open>A push of a reading of time 0 replaces a \<open>latest\<close> of time 1000.\<close>

theorem on_insert_latest_witness:
  "latest full_state = Some (reading_at 1000 50) \<and>
   latest (on_insert full_state (reading_at 0 50)) = Some (reading_at 0 50) \<and>
   created_at (reading_at 0 50) < created_at (reading_at 1000 50)"
  using on_insert_latest [of full_state "reading_at 0 50"]
  by (simp add: full_state_def reading_at_def)

section \<open>Range queries\<close>


lemma run_Nil: "run st [] = st"
  by (simp add: run_def)

lemma run_Cons: "run st (ev # evs) = run (step st ev) evs"
  by (simp add: run_def)

lemma render_fields:
  "data (render st) = data st"
  "timeRange (render st) = timeRange st"
  "inflight (render st) = inflight st"
  by (simp_all add: render_def)

lemma run_append: "run st (evs @ evs') = run (run st evs) evs'"
  by (simp add: run_def)

text \<open>Without a racing click, one query at most is in flight.\<close>

lemma single_flight_step:
  assumes "single_flight st" and "no_race st [ev]"
  shows "single_flight (step st ev)"
proof (cases ev)
  case (SetTimeRange r)
  with assms(2) have "\<not> click_races st" by simp
  with assms(1) have "screen_loading st \<or> inflight st = []"
    by (auto simp add: click_races_def single_flight_def)
  with assms(1) SetTimeRange show ?thesis
    by (auto simp add: single_flight_def setTimeRange_def)
next
  case TimerFires
  with assms(1) show ?thesis
    by (auto simp add: single_flight_def timer_fires_def split: option.splits)
next
  case (QueryDone r result)
  with assms(1) show ?thesis
    by (auto simp add: single_flight_def query_done_def fetch_done_fields)
next
  case (Insert newReading)
  with assms(1) show ?thesis by (simp add: single_flight_def on_insert_def)
next
  case Render
  with assms(1) show ?thesis by (simp add: single_flight_def render_def)
qed

lemma no_race_Cons: "no_race st (ev # evs) \<longleftrightarrow> no_race st [ev] \<and> no_race (step st ev) evs"
  by (cases ev) simp_all

lemma single_flight_run:
  "single_flight st \<Longrightarrow> no_race st evs \<Longrightarrow> single_flight (run st evs)"
proof (induction evs arbitrary: st)
  case Nil
  then show ?case by (simp add: run_def)
next
  case (Cons ev evs)
  from Cons.prems(2) have one: "no_race st [ev]" and rest: "no_race (step st ev) evs"
    using no_race_Cons [of st ev evs] by simp_all
  from Cons.prems(1) one have "single_flight (step st ev)" by (rule single_flight_step)
  then have "single_flight (run (step st ev) evs)" using rest by (rule Cons.IH)
  then show ?case by (simp add: run_Cons)
qed

lemma single_flight_initial: "single_flight initial"
  by (simp add: single_flight_def initial_def)

text \<open>
  C3 (as amended). The range buttons are on the page only while the loading screen is
  not, so from the start of the dashboard, as long as no click comes between
  \<^verbatim>\<open>fetchData\<close> setting \<^verbatim>\<open>loading\<close> and the next render, at most one query is in flight
  and it is for the selected range: no response is stale. Nothing else protects the
  buffer: there is no generation counter, a response of a query in flight replaces the
  displayed buffer whatever the selected range is by then, and a click that is let
  through changes the range and schedules a fetch while leaving the queries in flight
  as they are. So after a click that comes before the render, the response of the
  superseded query is applied when it arrives.
\<close>

theorem stale_response_only_by_race:
  "(no_race initial evs \<longrightarrow>
      inflight (run initial evs) = [] \<or>
      inflight (run initial evs) = [timeRange (run initial evs)]) \<and>
   (r \<in> set (inflight st) \<longrightarrow>
      data (query_done st r (Some readings)) = readings \<and>
      timeRange (query_done st r (Some readings)) = timeRange st) \<and>
   (\<not> screen_loading st \<and> r' \<noteq> timeRange st \<longrightarrow>
      timeRange (setTimeRange st r') = r' \<and>
      scheduled (setTimeRange st r') = Some r' \<and>
      inflight (setTimeRange st r') = inflight st)"
proof -
  have a: "inflight (run initial evs) = [] \<or>
      inflight (run initial evs) = [timeRange (run initial evs)]"
    if "no_race initial evs"
  proof -
    from single_flight_initial that have "single_flight (run initial evs)"
      by (rule single_flight_run)
    then show ?thesis by (auto simp add: single_flight_def)
  qed
  have b: "data (query_done st r (Some readings)) = readings \<and>
      timeRange (query_done st r (Some readings)) = timeRange st"
    if "r \<in> set (inflight st)"
    using that by (simp add: query_done_def fetch_done_keeps_all fetch_done_fields)
  have c: "timeRange (setTimeRange st r') = r' \<and>
      scheduled (setTimeRange st r') = Some r' \<and>
      inflight (setTimeRange st r') = inflight st"
    if "\<not> screen_loading st" and "r' \<noteq> timeRange st"
    using that by (simp add: setTimeRange_def)
  from a b c show ?thesis by blast
qed

lemma run_back_to_6h:
  "timeRange (run ready_state back_to_6h) = R6h"
  "inflight (run ready_state back_to_6h) = [R6h]"
  "scheduled (run ready_state back_to_6h) = None"
  "loading (run ready_state back_to_6h) = True"
  "screen_loading (run ready_state back_to_6h) = False"
  by (simp_all add: back_to_6h_def run_def setTimeRange_def timer_fires_def render_def
      query_done_def fetch_done_fields ready_state_fields)

text \<open>
  Without a race the 1h query is the only one in flight after the first fetch and a
  click on 1h. With the click on 24h before the render, the 6h query is in flight
  under the range 24h, and its answer is displayed.
\<close>

theorem stale_response_only_by_race_witness:
  "no_race initial (first_fetch @ [SetTimeRange R1h, TimerFires]) \<and>
   inflight (run initial (first_fetch @ [SetTimeRange R1h, TimerFires])) = [R1h] \<and>
   R6h \<in> set (inflight (setTimeRange (run ready_state back_to_6h) R24h)) \<and>
   timeRange (setTimeRange (run ready_state back_to_6h) R24h) = R24h \<and>
   data (query_done (setTimeRange (run ready_state back_to_6h) R24h) R6h (Some answer_6h))
     = answer_6h"
proof -
  let ?evs = "first_fetch @ [SetTimeRange R1h, TimerFires]"
  let ?st = "run ready_state back_to_6h"
  have n: "no_race initial ?evs"
    by (simp add: first_fetch_def click_races_def timer_fires_def render_def
        query_done_def initial_def fetch_done_fields)
  have rs: "run initial first_fetch = ready_state"
    by (simp add: ready_state_def)
  have t: "timeRange (run initial ?evs) = R1h"
    and f: "inflight (run initial ?evs) = [R1h]"
    by (simp_all add: run_append rs run_Cons run_Nil setTimeRange_def timer_fires_def
        ready_state_fields)
  note th = stale_response_only_by_race [of ?evs R6h "setTimeRange ?st R24h" answer_6h
      R24h]
  from th n have "inflight (run initial ?evs) = [] \<or>
      inflight (run initial ?evs) = [timeRange (run initial ?evs)]"
    by blast
  with f t have a: "inflight (run initial ?evs) = [R1h]" by simp
  have c: "timeRange (setTimeRange ?st R24h) = R24h"
    and i: "R6h \<in> set (inflight (setTimeRange ?st R24h))"
    by (simp_all add: setTimeRange_def run_back_to_6h)
  from th i have d: "data (query_done (setTimeRange ?st R24h) R6h (Some answer_6h))
      = answer_6h"
    by blast
  from n a i c d show ?thesis by (intro conjI)
qed

text \<open>
  C3 as stated fails on scenario E: the click on 24h comes while the 6h query is in
  flight and the page still has the buttons; at the end the range is 24h and the
  buffer displayed is the answer of the superseded 6h query, which arrived last.
\<close>

theorem scenario_E_counterexample:
  "click_races (run ready_state back_to_6h) \<and>
   timeRange (run ready_state scenario_E) = R24h \<and>
   data (run ready_state (butlast scenario_E)) = answer_24h \<and>
   data (run ready_state scenario_E) = answer_6h \<and>
   answer_6h \<noteq> answer_24h"
proof -
  let ?st = "run ready_state back_to_6h"
  have r: "click_races ?st"
    by (simp add: click_races_def run_back_to_6h)
  have b: "run ready_state (butlast scenario_E) =
      render (query_done (render (timer_fires (setTimeRange ?st R24h))) R24h
        (Some answer_24h))"
    by (simp add: scenario_E_def butlast_append run_append run_def)
  have e: "run ready_state scenario_E =
      query_done (run ready_state (butlast scenario_E)) R6h (Some answer_6h)"
    by (simp add: scenario_E_def butlast_append run_append run_def)
  have f: "inflight (timer_fires (setTimeRange ?st R24h)) = [R6h, R24h]"
    "timeRange (timer_fires (setTimeRange ?st R24h)) = R24h"
    by (simp_all add: timer_fires_def setTimeRange_def run_back_to_6h)
  have g: "data (run ready_state (butlast scenario_E)) = answer_24h"
    "inflight (run ready_state (butlast scenario_E)) = [R6h]"
    "timeRange (run ready_state (butlast scenario_E)) = R24h"
    unfolding b by (simp_all add: render_fields query_done_def f fetch_done_keeps_all
        fetch_done_fields)
  have h: "data (run ready_state scenario_E) = answer_6h"
    "timeRange (run ready_state scenario_E) = R24h"
    unfolding e by (simp_all add: query_done_def g fetch_done_keeps_all fetch_done_fields)
  have n: "answer_6h \<noteq> answer_24h"
    by (simp add: answer_6h_def answer_24h_def)
  from r g(1) h n show ?thesis by (intro conjI)
qed




section \<open>Alerts\<close>

lemma load_settings_ignored: "load_settings st stored = st"
  by (simp add: load_settings_def split: option.splits)

text \<open>The two banners compare the latest reading with the literals 30 and 100.\<close>

lemma alerts_literals:
  assumes "\<not> loading st" and "latest st = Some l"
  shows "(LowMoistureAlert \<in> set (alerts st) \<longleftrightarrow> moisture l < 30) \<and>
     (LowLightAlert \<in> set (alerts st) \<longleftrightarrow> light_lux l < 100)"
  using assms by (simp add: alerts_def lowMoisture_def lowLight_def)

text \<open>
  C7. The settings dialog offers its thresholds as alert thresholds and stores them;
  the dashboard reads the stored settings and only logs them. With a stored moisture
  threshold of 50 and a latest reading of moisture 40 and temperature 40, the moisture
  is below the stored threshold and the temperature above the stored upper bound, so
  the flags of the claim hold; the dashboard shows no alert.
\<close>

theorem stored_threshold_ignored:
  "load_settings state_40 (Some settings_50) = state_40 \<and>
   \<not> loading state_40 \<and>
   latest state_40 = Some reading_40 \<and>
   moisture reading_40 < moistureThreshold settings_50 \<and>
   tempThresholdHigh settings_50 < temperature reading_40 \<and>
   alerts (load_settings state_40 (Some settings_50)) = []"
  by (simp add: load_settings_def state_40_def settings_50_def default_settings_def
      reading_40_def reading_at_def lowMoisture_def lowLight_def alerts_def)

section \<open>Ingest\<close>






lemma get_field_missing: "body k = None \<Longrightarrow> get_field body k = JUndefined"
  by (simp add: get_field_def)




end
